theory Spec2Isabelle
  imports Main
begin

section \<open>Python strings and the character database\<close>

text \<open>
  A Python \<open>str\<close> is a sequence of Unicode code points, and iterating over it
  (\<open>for ch in title\<close>) visits one code point at a time. A code point is a natural
  number; a title is an optional string, \<open>None\<close> being Python's \<open>None\<close>.
\<close>

type_synonym codepoint = nat
type_synonym str = "codepoint list"

text \<open>
  \<open>src/utils/title_matching.py\<close> calls three built-ins that read the interpreter's
  Unicode character database: \<open>ch.isalnum()\<close> and \<open>ch.isspace()\<close> on a string of
  one code point, and \<open>s.lower()\<close> on a whole string (lower-casing is not a map over
  the code points: one code point may become several, and a capital sigma is
  lower-cased by its context). The database belongs to the interpreter and not to the
  repository, so it is a parameter of every function below.
\<close>

record unicode =
  isalnum :: "codepoint \<Rightarrow> bool"
  isspace :: "codepoint \<Rightarrow> bool"
  lower :: "str \<Rightarrow> str"

text \<open>
  What the proofs use of the database, each a fact of CPython's tables: U+0020 is
  whitespace; no code point is both alphanumeric (general categories L* and N*) and
  whitespace (Z* and a few controls); lower-casing maps the empty string, and only
  the empty string, to the empty string.
\<close>

definition unicode_ok :: "unicode \<Rightarrow> bool" where
  "unicode_ok u \<longleftrightarrow>
     isspace u 0x20 \<and>
     (\<forall>c. isalnum u c \<longrightarrow> \<not> isspace u c) \<and>
     (\<forall>s. lower u s = [] \<longleftrightarrow> s = [])"

subsection \<open>\<open>str.split()\<close> and \<open>str.join\<close>\<close>

text \<open>
  \<open>s.split()\<close> without a separator: skip the whitespace, take the code points up to
  the next whitespace as a word, and go on behind it; no word is empty. Whitespace is
  what \<open>isspace\<close> says it is.
\<close>

function split_whitespace :: "(codepoint \<Rightarrow> bool) \<Rightarrow> str \<Rightarrow> str list" where
  "split_whitespace sp [] = []"
| "split_whitespace sp (c # cs) =
     (if sp c then split_whitespace sp cs
      else (c # takeWhile (\<lambda>x. \<not> sp x) cs)
             # split_whitespace sp (dropWhile (\<lambda>x. \<not> sp x) cs))"
  by pat_completeness auto
termination
  by (relation "measure (\<lambda>(sp, s). length s)")
     (auto simp: le_imp_less_Suc length_dropWhile_le)

text \<open>\<open>sep.join(words)\<close>: the words with \<open>sep\<close> between each two of them.\<close>

fun join :: "str \<Rightarrow> str list \<Rightarrow> str" where
  "join sep [] = []"
| "join sep [w] = w"
| "join sep (w # ws) = w @ sep @ join sep ws"

section \<open>The three functions of \<open>title_matching.py\<close>\<close>

text \<open>
  \<open>if not title: return ""\<close> takes both \<open>None\<close> and the empty string. Otherwise
  the code points that are alphanumeric or whitespace are kept, the result is split
  at whitespace and the words are joined by one U+0020.
\<close>

definition normalize_title_for_matching :: "unicode \<Rightarrow> str option \<Rightarrow> str" where
  "normalize_title_for_matching u title =
     (case title of
        None \<Rightarrow> []
      | Some t \<Rightarrow>
          if t = [] then []
          else let normalized = filter (\<lambda>ch. isalnum u ch \<or> isspace u ch) t
               in join [0x20] (split_whitespace (isspace u) normalized))"

definition normalize_title_for_comparison :: "unicode \<Rightarrow> str option \<Rightarrow> str" where
  "normalize_title_for_comparison u title = lower u (normalize_title_for_matching u title)"

definition fuzzy_title_match :: "unicode \<Rightarrow> str option \<Rightarrow> str option \<Rightarrow> bool" where
  "fuzzy_title_match u title1 title2 \<longleftrightarrow>
     normalize_title_for_comparison u title1 = normalize_title_for_comparison u title2"

section \<open>A concrete database: the Latin-1 range\<close>

text \<open>
  CPython's classification of the code points below 256, used to evaluate the
  functions on concrete titles. The whitespace code points are listed in full; a code
  point above 255 is not alphanumeric here and is its own lower case, so this
  database stands for the interpreter on strings of Latin-1 code points only.
\<close>

definition latin1_isalnum :: "codepoint \<Rightarrow> bool" where
  "latin1_isalnum c \<longleftrightarrow>
     (0x30 \<le> c \<and> c \<le> 0x39) \<or> (0x41 \<le> c \<and> c \<le> 0x5A) \<or> (0x61 \<le> c \<and> c \<le> 0x7A) \<or>
     c = 0xAA \<or> c = 0xB2 \<or> c = 0xB3 \<or> c = 0xB5 \<or> c = 0xB9 \<or> c = 0xBA \<or>
     (0xBC \<le> c \<and> c \<le> 0xBE) \<or> (0xC0 \<le> c \<and> c \<le> 0xD6) \<or>
     (0xD8 \<le> c \<and> c \<le> 0xF6) \<or> (0xF8 \<le> c \<and> c \<le> 0xFF)"

definition py_isspace :: "codepoint \<Rightarrow> bool" where
  "py_isspace c \<longleftrightarrow>
     (0x09 \<le> c \<and> c \<le> 0x0D) \<or> (0x1C \<le> c \<and> c \<le> 0x20) \<or> c = 0x85 \<or> c = 0xA0 \<or>
     c = 0x1680 \<or> (0x2000 \<le> c \<and> c \<le> 0x200A) \<or> c = 0x2028 \<or> c = 0x2029 \<or>
     c = 0x202F \<or> c = 0x205F \<or> c = 0x3000"

definition latin1_tolower :: "codepoint \<Rightarrow> codepoint" where
  "latin1_tolower c =
     (if (0x41 \<le> c \<and> c \<le> 0x5A) \<or> (0xC0 \<le> c \<and> c \<le> 0xD6) \<or> (0xD8 \<le> c \<and> c \<le> 0xDE)
      then c + 0x20 else c)"

definition latin1 :: unicode where
  "latin1 = \<lparr> isalnum = latin1_isalnum, isspace = py_isspace, lower = map latin1_tolower \<rparr>"

text \<open>A database agrees with CPython on the Latin-1 range.\<close>

definition latin1_agree :: "unicode \<Rightarrow> bool" where
  "latin1_agree u \<longleftrightarrow>
     (\<forall>c<256. isalnum u c = latin1_isalnum c \<and> isspace u c = py_isspace c)"

text \<open>The code points of an ASCII literal.\<close>

definition codepoints :: "string \<Rightarrow> str" where
  "codepoints s = map of_char s"

section \<open>Properties of splitting and joining\<close>

lemma split_whitespace_words:
  "w \<in> set (split_whitespace sp s) \<Longrightarrow> w \<noteq> [] \<and> (\<forall>c\<in>set w. \<not> sp c \<and> c \<in> set s)"
proof (induction sp s rule: split_whitespace.induct)
  case (1 sp)
  then show ?case by simp
next
  case (2 sp c cs)
  show ?case
  proof (cases "sp c")
    case True
    with 2 show ?thesis by auto
  next
    case False
    let ?word = "c # takeWhile (\<lambda>x. \<not> sp x) cs"
    let ?rest = "dropWhile (\<lambda>x. \<not> sp x) cs"
    from False "2.prems" consider "w = ?word" | "w \<in> set (split_whitespace sp ?rest)"
      by auto
    then show ?thesis
    proof cases
      case 1
      have "\<forall>x\<in>set (takeWhile (\<lambda>x. \<not> sp x) cs). \<not> sp x \<and> x \<in> set cs"
        using set_takeWhileD by fastforce
      with 1 False show ?thesis by simp
    next
      case 2
      with False "2.IH"(2) have "w \<noteq> [] \<and> (\<forall>x\<in>set w. \<not> sp x \<and> x \<in> set ?rest)"
        by blast
      moreover have "set ?rest \<subseteq> set cs"
        using set_dropWhileD by fastforce
      ultimately show ?thesis by auto
    qed
  qed
qed

lemma filter_takeWhile_dropWhile:
  "takeWhile P xs @ filter P (dropWhile P xs) = filter P xs"
  by (induction xs) auto

lemma concat_split_whitespace:
  "concat (split_whitespace sp s) = filter (\<lambda>c. \<not> sp c) s"
proof (induction sp s rule: split_whitespace.induct)
  case (1 sp)
  then show ?case by simp
next
  case (2 sp c cs)
  then show ?case
    by (simp add: filter_takeWhile_dropWhile)
qed

lemma split_whitespace_Nil_iff:
  "split_whitespace sp s = [] \<longleftrightarrow> (\<forall>c\<in>set s. sp c)"
  by (induction sp s rule: split_whitespace.induct) auto

lemma split_whitespace_word:
  "w \<noteq> [] \<Longrightarrow> \<forall>c\<in>set w. \<not> sp c \<Longrightarrow> sp b \<Longrightarrow>
   split_whitespace sp (w @ b # r) = w # split_whitespace sp r"
  by (cases w) (auto simp: takeWhile_append dropWhile_append)

lemma split_whitespace_last_word:
  "w \<noteq> [] \<Longrightarrow> \<forall>c\<in>set w. \<not> sp c \<Longrightarrow> split_whitespace sp w = [w]"
proof (cases w)
  case Nil
  then show "w \<noteq> [] \<Longrightarrow> ?thesis" by simp
next
  case (Cons c cs)
  assume "\<forall>c\<in>set w. \<not> sp c"
  with Cons have "\<not> sp c" "takeWhile (\<lambda>x. \<not> sp x) cs = cs" "dropWhile (\<lambda>x. \<not> sp x) cs = []"
    by simp_all
  with Cons show ?thesis by (simp del: dropWhile_eq_Nil_conv)
qed

lemma split_whitespace_join:
  "\<forall>w\<in>set ws. w \<noteq> [] \<and> (\<forall>c\<in>set w. \<not> sp c) \<Longrightarrow> sp b \<Longrightarrow>
   split_whitespace sp (join [b] ws) = ws"
proof (induction "[b]" ws rule: join.induct)
  case 1
  then show ?case by simp
next
  case (2 w)
  then show ?case by (simp add: split_whitespace_last_word)
next
  case (3 w v ws)
  then show ?case by (simp add: split_whitespace_word)
qed

lemma filter_join_keep:
  "P b \<Longrightarrow> \<forall>w\<in>set ws. \<forall>c\<in>set w. P c \<Longrightarrow> filter P (join [b] ws) = join [b] ws"
  by (induction "[b]" ws rule: join.induct) auto

lemma filter_join_drop:
  "\<not> P b \<Longrightarrow> filter P (join [b] ws) = filter P (concat ws)"
  by (induction "[b]" ws rule: join.induct) auto

lemma set_join: "c \<in> set (join [b] ws) \<Longrightarrow> c = b \<or> (\<exists>w\<in>set ws. c \<in> set w)"
  by (induction "[b]" ws rule: join.induct) auto

lemma join_Nil_iff: "\<forall>w\<in>set ws. w \<noteq> [] \<Longrightarrow> join sep ws = [] \<longleftrightarrow> ws = []"
  by (induction sep ws rule: join.induct) auto

lemma hd_join: "\<forall>w\<in>set ws. w \<noteq> [] \<Longrightarrow> ws \<noteq> [] \<Longrightarrow> hd (join sep ws) = hd (hd ws)"
  by (induction sep ws rule: join.induct) auto

lemma last_join: "\<forall>w\<in>set ws. w \<noteq> [] \<Longrightarrow> ws \<noteq> [] \<Longrightarrow> last (join sep ws) = last (last ws)"
  by (induction sep ws rule: join.induct) (auto simp: join_Nil_iff)

lemma successively_no_sep:
  "b \<notin> set w \<Longrightarrow> successively (\<lambda>x y. x = b \<longrightarrow> y \<noteq> b) w"
  by (induction w) (auto simp: successively_Cons)

lemma successively_join:
  "\<forall>w\<in>set ws. w \<noteq> [] \<and> b \<notin> set w \<Longrightarrow>
   successively (\<lambda>x y. x = b \<longrightarrow> y \<noteq> b) (join [b] ws)"
proof (induction "[b]" ws rule: join.induct)
  case 1
  then show ?case by simp
next
  case (2 w)
  then show ?case by (simp add: successively_no_sep)
next
  case (3 w v ws)
  then have w: "w \<noteq> []" "b \<notin> set w" and v: "v \<noteq> []" "b \<notin> set v"
    and rest: "successively (\<lambda>x y. x = b \<longrightarrow> y \<noteq> b) (join [b] (v # ws))"
    by simp_all
  have "hd (join [b] (v # ws)) = hd v"
    using v by (cases ws) simp_all
  with v have "hd (join [b] (v # ws)) \<noteq> b"
    by (metis hd_in_set)
  moreover have "last w \<noteq> b"
    using w by (metis last_in_set)
  moreover have "join [b] (v # ws) \<noteq> []"
    using v by (cases ws) simp_all
  ultimately show ?case
    using w rest
    by (simp add: successively_append_iff successively_Cons successively_no_sep)
qed

section \<open>Properties of the normalization\<close>

lemma split_whitespace_cong:
  "\<forall>c\<in>set s. sp c = sp' c \<Longrightarrow> split_whitespace sp s = split_whitespace sp' s"
proof (induction sp s rule: split_whitespace.induct)
  case (1 sp)
  then show ?case by simp
next
  case (2 sp c cs)
  let ?rest = "dropWhile (\<lambda>x. \<not> sp x) cs"
  from "2.prems" have c: "sp' c = sp c" and cs: "\<forall>x\<in>set cs. sp x = sp' x"
    by simp_all
  from cs have tw: "takeWhile (\<lambda>x. \<not> sp' x) cs = takeWhile (\<lambda>x. \<not> sp x) cs"
    by (intro takeWhile_cong) simp_all
  from cs have dw: "dropWhile (\<lambda>x. \<not> sp' x) cs = ?rest"
    by (intro dropWhile_cong) simp_all
  show ?case
  proof (cases "sp c")
    case True
    with cs "2.IH"(1) have "split_whitespace sp cs = split_whitespace sp' cs"
      by blast
    with True c show ?thesis by simp
  next
    case False
    have "\<forall>x\<in>set ?rest. sp x = sp' x"
    proof
      fix x assume "x \<in> set ?rest"
      then have "x \<in> set cs" by (rule set_dropWhileD)
      with cs show "sp x = sp' x" by simp
    qed
    with False "2.IH"(2) have "split_whitespace sp ?rest = split_whitespace sp' ?rest"
      by blast
    with False c show ?thesis by (simp add: tw dw)
  qed
qed

lemma normalize_title_for_matching_Some:
  "normalize_title_for_matching u (Some t) =
     join [0x20] (split_whitespace (isspace u) (filter (\<lambda>ch. isalnum u ch \<or> isspace u ch) t))"
  by (simp add: normalize_title_for_matching_def)

lemma normalize_title_for_matching_cong:
  assumes "\<forall>c\<in>set t. isalnum u c = isalnum v c \<and> isspace u c = isspace v c"
  shows "normalize_title_for_matching u (Some t) = normalize_title_for_matching v (Some t)"
proof -
  have "filter (\<lambda>ch. isalnum u ch \<or> isspace u ch) t = filter (\<lambda>ch. isalnum v ch \<or> isspace v ch) t"
    using assms by (intro filter_cong) simp_all
  moreover have "split_whitespace (isspace u) (filter (\<lambda>ch. isalnum v ch \<or> isspace v ch) t) =
                 split_whitespace (isspace v) (filter (\<lambda>ch. isalnum v ch \<or> isspace v ch) t)"
    by (rule split_whitespace_cong) (use assms in simp)
  ultimately show ?thesis
    by (simp add: normalize_title_for_matching_Some)
qed

lemma normalize_title_for_matching_words:
  "\<exists>ws. normalize_title_for_matching u x = join [0x20] ws \<and>
        (\<forall>w\<in>set ws. w \<noteq> [] \<and> (\<forall>c\<in>set w. isalnum u c \<and> \<not> isspace u c))"
proof (cases x)
  case None
  have "normalize_title_for_matching u None = join [0x20] []"
    by (simp add: normalize_title_for_matching_def)
  with None show ?thesis by fastforce
next
  case (Some t)
  let ?ws = "split_whitespace (isspace u) (filter (\<lambda>ch. isalnum u ch \<or> isspace u ch) t)"
  have "\<forall>w\<in>set ?ws. w \<noteq> [] \<and> (\<forall>c\<in>set w. isalnum u c \<and> \<not> isspace u c)"
  proof
    fix w assume "w \<in> set ?ws"
    then have "w \<noteq> [] \<and> (\<forall>c\<in>set w. \<not> isspace u c \<and>
                 c \<in> set (filter (\<lambda>ch. isalnum u ch \<or> isspace u ch) t))"
      by (rule split_whitespace_words)
    then show "w \<noteq> [] \<and> (\<forall>c\<in>set w. isalnum u c \<and> \<not> isspace u c)"
      by simp blast
  qed
  with Some show ?thesis
    using normalize_title_for_matching_Some [of u t] by blast
qed

lemma normalize_title_for_matching_idem:
  assumes "isspace u 0x20"
  shows "normalize_title_for_matching u (Some (normalize_title_for_matching u x)) =
         normalize_title_for_matching u x"
proof -
  obtain ws where r: "normalize_title_for_matching u x = join [0x20] ws"
    and ws: "\<forall>w\<in>set ws. w \<noteq> [] \<and> (\<forall>c\<in>set w. isalnum u c \<and> \<not> isspace u c)"
    using normalize_title_for_matching_words by blast
  have "filter (\<lambda>ch. isalnum u ch \<or> isspace u ch) (join [0x20] ws) = join [0x20] ws"
    using assms ws by (intro filter_join_keep) auto
  moreover have "split_whitespace (isspace u) (join [0x20] ws) = ws"
    using assms ws by (intro split_whitespace_join) auto
  ultimately show ?thesis
    by (simp add: normalize_title_for_matching_Some r)
qed

lemma normalize_title_for_matching_filter_alnum:
  assumes "isspace u 0x20" and "\<forall>c. isalnum u c \<longrightarrow> \<not> isspace u c"
  shows "filter (isalnum u) (normalize_title_for_matching u (Some t)) = filter (isalnum u) t"
proof -
  have "\<not> isalnum u 0x20" using assms by blast
  then have "filter (isalnum u) (normalize_title_for_matching u (Some t)) =
        filter (isalnum u) (concat (split_whitespace (isspace u)
          (filter (\<lambda>ch. isalnum u ch \<or> isspace u ch) t)))"
    by (simp add: normalize_title_for_matching_Some filter_join_drop)
  also have "\<dots> = filter (\<lambda>c. (isalnum u c \<or> isspace u c) \<and> \<not> isspace u c \<and> isalnum u c) t"
    by (simp add: concat_split_whitespace)
  also have "\<dots> = filter (isalnum u) t"
    by (rule filter_cong) (use assms(2) in auto)
  finally show ?thesis .
qed

lemma normalize_title_for_matching_Nil_iff:
  assumes "\<forall>c. isalnum u c \<longrightarrow> \<not> isspace u c"
  shows "normalize_title_for_matching u (Some t) = [] \<longleftrightarrow> \<not> list_ex (isalnum u) t"
proof -
  let ?ws = "split_whitespace (isspace u) (filter (\<lambda>ch. isalnum u ch \<or> isspace u ch) t)"
  have "\<forall>w\<in>set ?ws. w \<noteq> []"
    using split_whitespace_words by blast
  then have "join [0x20] ?ws = [] \<longleftrightarrow> ?ws = []"
    by (rule join_Nil_iff)
  also have "\<dots> \<longleftrightarrow> \<not> list_ex (isalnum u) t"
    using assms by (auto simp: split_whitespace_Nil_iff list_ex_iff)
  finally show ?thesis
    by (simp add: normalize_title_for_matching_Some)
qed

lemma normalize_title_for_matching_delete:
  "\<not> isalnum u p \<Longrightarrow> \<not> isspace u p \<Longrightarrow>
   normalize_title_for_matching u (Some (a @ p # b)) = normalize_title_for_matching u (Some (a @ b))"
  by (simp add: normalize_title_for_matching_Some)

lemma split_whitespace_skip:
  "\<forall>c\<in>set ss. sp c \<Longrightarrow> split_whitespace sp (ss @ r) = split_whitespace sp r"
  by (induction ss) simp_all

lemma split_whitespace_prefix_word:
  assumes "\<forall>c\<in>set w. \<not> sp c" and "r = [] \<or> sp (hd r)"
  shows "split_whitespace sp (w @ r) = (if w = [] then [] else [w]) @ split_whitespace sp r"
proof (cases "w = []")
  case True
  then show ?thesis by simp
next
  case False
  show ?thesis
  proof (cases r)
    case Nil
    with False assms(1) show ?thesis
      by (simp add: split_whitespace_last_word)
  next
    case (Cons s r')
    with assms(2) have "sp s" by simp
    with False assms(1) Cons show ?thesis
      by (simp add: split_whitespace_word)
  qed
qed

lemma split_whitespace_filter:
  assumes "\<forall>c. al c \<longrightarrow> \<not> sp c"
  shows "split_whitespace sp (filter (\<lambda>c. al c \<or> sp c) t) =
         filter (\<lambda>w. w \<noteq> []) (map (filter al) (split_whitespace sp t))"
proof (induction sp t rule: split_whitespace.induct)
  case (1 sp)
  then show ?case by simp
next
  case (2 sp c cs)
  show ?case
  proof (cases "sp c")
    case True
    with 2 show ?thesis by simp
  next
    case False
    let ?f = "\<lambda>c. al c \<or> sp c"
    let ?tw = "takeWhile (\<lambda>x. \<not> sp x) cs"
    let ?dw = "dropWhile (\<lambda>x. \<not> sp x) cs"
    let ?w = "filter al (c # ?tw)"
    have tw: "\<forall>x\<in>set (c # ?tw). \<not> sp x"
    proof
      fix x assume "x \<in> set (c # ?tw)"
      then consider "x = c" | "x \<in> set ?tw" by auto
      then show "\<not> sp x"
      proof cases
        case 1
        with False show ?thesis by simp
      next
        case 2
        then have "x \<in> set cs \<and> \<not> sp x" by (rule set_takeWhileD)
        then show ?thesis by simp
      qed
    qed
    have "filter ?f (c # cs) = filter ?f ((c # ?tw) @ ?dw)"
      by simp
    also have "\<dots> = filter ?f (c # ?tw) @ filter ?f ?dw"
      by (simp only: filter_append)
    also have "filter ?f (c # ?tw) = ?w"
      by (rule filter_cong) (use tw in auto)
    finally have split: "filter ?f (c # cs) = ?w @ filter ?f ?dw" .
    have w: "\<forall>x\<in>set ?w. \<not> sp x"
      using tw by simp
    have dw: "filter ?f ?dw = [] \<or> sp (hd (filter ?f ?dw))"
    proof (cases ?dw)
      case Nil
      then show ?thesis by (simp del: dropWhile_eq_Nil_conv)
    next
      case (Cons s r)
      then have "?dw \<noteq> []" by simp
      then have "\<not> \<not> sp (hd ?dw)" by (rule hd_dropWhile)
      with Cons have "sp s" by simp
      with Cons show ?thesis by simp
    qed
    have "split_whitespace sp (filter ?f (c # cs)) =
          (if ?w = [] then [] else [?w]) @ split_whitespace sp (filter ?f ?dw)"
      unfolding split using w dw by (rule split_whitespace_prefix_word)
    also have "split_whitespace sp (filter ?f ?dw) =
               filter (\<lambda>w. w \<noteq> []) (map (filter al) (split_whitespace sp ?dw))"
      using False by (rule "2.IH"(2))
    finally show ?thesis
      using False by simp
  qed
qed

lemma normalize_title_for_matching_split_first:
  assumes "\<forall>c. isalnum u c \<longrightarrow> \<not> isspace u c"
  shows "normalize_title_for_matching u (Some t) =
         join [0x20] (filter (\<lambda>w. w \<noteq> [])
           (map (filter (isalnum u)) (split_whitespace (isspace u) t)))"
  using split_whitespace_filter [of "isalnum u" "isspace u" t, OF assms]
  by (simp add: normalize_title_for_matching_Some)

lemma normalize_title_for_matching_concatenated:
  assumes disj: "\<forall>c. isalnum u c \<longrightarrow> \<not> isspace u c"
    and w1: "\<forall>c\<in>set w1. isalnum u c" and w2: "\<forall>c\<in>set w2. isalnum u c"
    and ps: "\<forall>c\<in>set ps. \<not> isalnum u c \<and> \<not> isspace u c"
  shows "normalize_title_for_matching u (Some (w1 @ ps @ w2)) = w1 @ w2"
proof -
  let ?f = "\<lambda>ch. isalnum u ch \<or> isspace u ch"
  have "filter ?f w1 = w1" "filter ?f w2 = w2" "filter ?f ps = []"
    using w1 w2 ps by (simp_all add: filter_id_conv filter_empty_conv)
  then have f: "filter ?f (w1 @ ps @ w2) = w1 @ w2"
    by simp
  have "join [0x20] (split_whitespace (isspace u) (w1 @ w2)) = w1 @ w2"
  proof (cases "w1 @ w2 = []")
    case True
    then show ?thesis by simp
  next
    case False
    moreover have "\<forall>c\<in>set (w1 @ w2). \<not> isspace u c"
      using disj w1 w2 by auto
    ultimately have "split_whitespace (isspace u) (w1 @ w2) = [w1 @ w2]"
      by (rule split_whitespace_last_word)
    then show ?thesis by simp
  qed
  with f show ?thesis
    by (simp only: normalize_title_for_matching_Some)
qed

lemma normalize_title_for_matching_separated:
  assumes disj: "\<forall>c. isalnum u c \<longrightarrow> \<not> isspace u c"
    and ne: "v1 \<noteq> []" "v2 \<noteq> []"
    and v1: "\<forall>c\<in>set v1. isalnum u c" and v2: "\<forall>c\<in>set v2. isalnum u c"
    and ms: "\<forall>c\<in>set ms. \<not> isalnum u c" and sp: "\<exists>c\<in>set ms. isspace u c"
  shows "normalize_title_for_matching u (Some (v1 @ ms @ v2)) = v1 @ 0x20 # v2"
proof -
  let ?f = "\<lambda>ch. isalnum u ch \<or> isspace u ch"
  have "filter ?f ms = filter (isspace u) ms"
    by (rule filter_cong) (use ms in auto)
  moreover from sp have "filter (isspace u) ms \<noteq> []"
    by (simp add: filter_empty_conv)
  ultimately have "filter ?f ms \<noteq> []"
    by simp
  then obtain s ss where sss: "filter ?f ms = s # ss"
    by (meson list.exhaust)
  then have "set (s # ss) \<subseteq> {c \<in> set ms. ?f c}"
    by (metis set_filter subset_refl)
  with ms have spaces: "isspace u s" "\<forall>c\<in>set ss. isspace u c"
    by auto
  have "filter ?f v1 = v1" "filter ?f v2 = v2"
    using v1 v2 by (simp_all add: filter_id_conv)
  with sss have f: "filter ?f (v1 @ ms @ v2) = v1 @ s # (ss @ v2)"
    by simp
  have nsp1: "\<forall>c\<in>set v1. \<not> isspace u c" and nsp2: "\<forall>c\<in>set v2. \<not> isspace u c"
    using disj v1 v2 by auto
  have "split_whitespace (isspace u) (v1 @ s # (ss @ v2)) =
        v1 # split_whitespace (isspace u) (ss @ v2)"
    using ne(1) nsp1 spaces(1) by (rule split_whitespace_word)
  also have "split_whitespace (isspace u) (ss @ v2) = split_whitespace (isspace u) v2"
    using spaces(2) by (rule split_whitespace_skip)
  also have "\<dots> = [v2]"
    using ne(2) nsp2 by (rule split_whitespace_last_word)
  finally have "join [0x20] (split_whitespace (isspace u) (v1 @ s # (ss @ v2))) = v1 @ 0x20 # v2"
    by simp
  with f show ?thesis
    by (simp only: normalize_title_for_matching_Some)
qed

section \<open>The Latin-1 database is well-formed\<close>

lemma latin1_ok: "unicode_ok latin1"
  by (auto simp: unicode_ok_def latin1_def latin1_isalnum_def py_isspace_def)

lemma latin1_agree_latin1: "latin1_agree latin1"
  by (simp add: latin1_agree_def latin1_def)

lemma latin1_agree_cong:
  assumes "latin1_agree u" and "\<forall>c\<in>set t. c < 256"
  shows "normalize_title_for_matching u (Some t) = normalize_title_for_matching latin1 (Some t)"
proof (rule normalize_title_for_matching_cong)
  show "\<forall>c\<in>set t. isalnum u c = isalnum latin1 c \<and> isspace u c = isspace latin1 c"
    using assms by (simp add: latin1_agree_def latin1_def)
qed

lemmas latin1_eval =
  normalize_title_for_comparison_def normalize_title_for_matching_def fuzzy_title_match_def
  latin1_def latin1_isalnum_def py_isspace_def latin1_tolower_def codepoints_def

section \<open>The claims\<close>

text \<open>
  C1. For every two titles, absent or present, \<open>fuzzy_title_match\<close> returns true exactly
  when the two titles have the same normalization for comparison; two absent titles
  match.
\<close>

theorem fuzzy_title_match_iff_comparison_equal:
  "fuzzy_title_match u x y =
     (normalize_title_for_comparison u x = normalize_title_for_comparison u y) \<and>
   fuzzy_title_match u None None"
  by (simp add: fuzzy_title_match_def)

text \<open>
  C2. For every title, absent, empty or not, every code point of
  \<open>normalize_title_for_matching\<close>'s result is alphanumeric or U+0020, no two adjacent
  code points are both U+0020, and the result neither starts nor ends with U+0020.
  U+0020 itself is not alphanumeric, so the spaces are separators between
  alphanumeric words.
\<close>

theorem normalize_title_for_matching_alnum_single_spaces:
  assumes "unicode_ok u"
  shows "list_all (\<lambda>c. isalnum u c \<or> c = 0x20) (normalize_title_for_matching u x) \<and>
         successively (\<lambda>a b. \<not> (a = 0x20 \<and> b = 0x20)) (normalize_title_for_matching u x) \<and>
         (normalize_title_for_matching u x = [] \<or>
          hd (normalize_title_for_matching u x) \<noteq> 0x20 \<and>
          last (normalize_title_for_matching u x) \<noteq> 0x20) \<and>
         \<not> isalnum u 0x20"
proof -
  from assms have sp: "isspace u 0x20" and disj: "\<forall>c. isalnum u c \<longrightarrow> \<not> isspace u c"
    by (simp_all add: unicode_ok_def)
  obtain ws where r: "normalize_title_for_matching u x = join [0x20] ws"
    and ws: "\<forall>w\<in>set ws. w \<noteq> [] \<and> (\<forall>c\<in>set w. isalnum u c \<and> \<not> isspace u c)"
    using normalize_title_for_matching_words by blast
  from ws sp have nosp: "\<forall>w\<in>set ws. w \<noteq> [] \<and> 0x20 \<notin> set w"
    by blast
  have "\<forall>c\<in>set (join [0x20] ws). isalnum u c \<or> c = 0x20"
    using ws set_join by blast
  then have 1: "list_all (\<lambda>c. isalnum u c \<or> c = 0x20) (join [0x20] ws)"
    by (simp add: list_all_iff)
  have 2: "successively (\<lambda>a b. \<not> (a = 0x20 \<and> b = 0x20)) (join [0x20] ws)"
    using successively_join [OF nosp] by simp
  have 3: "join [0x20] ws = [] \<or> hd (join [0x20] ws) \<noteq> 0x20 \<and> last (join [0x20] ws) \<noteq> 0x20"
  proof (cases "ws = []")
    case True
    then show ?thesis by simp
  next
    case False
    from nosp have ne: "\<forall>w\<in>set ws. w \<noteq> []" by blast
    from False nosp have "hd (hd ws) \<noteq> 0x20"
      by (metis hd_in_set)
    moreover from False nosp have "last (last ws) \<noteq> 0x20"
      by (metis last_in_set)
    ultimately show ?thesis
      using False ne by (simp add: hd_join last_join)
  qed
  from sp disj have 4: "\<not> isalnum u 0x20" by blast
  from 1 2 3 4 show ?thesis unfolding r by blast
qed

theorem normalize_title_for_matching_alnum_single_spaces_witness:
  "unicode_ok latin1 \<and>
   normalize_title_for_matching latin1 (Some (codepoints '' Bob's   Burgers! '')) =
     codepoints ''Bobs Burgers'' \<and>
   list_all (\<lambda>c. isalnum latin1 c \<or> c = 0x20)
     (normalize_title_for_matching latin1 (Some (codepoints '' Bob's   Burgers! ''))) \<and>
   successively (\<lambda>a b. \<not> (a = 0x20 \<and> b = 0x20))
     (normalize_title_for_matching latin1 (Some (codepoints '' Bob's   Burgers! ''))) \<and>
   hd (normalize_title_for_matching latin1 (Some (codepoints '' Bob's   Burgers! ''))) \<noteq> 0x20 \<and>
   last (normalize_title_for_matching latin1 (Some (codepoints '' Bob's   Burgers! ''))) \<noteq> 0x20"
  using latin1_ok
    normalize_title_for_matching_alnum_single_spaces
      [OF latin1_ok, of "Some (codepoints '' Bob's   Burgers! '')"]
  by (simp add: latin1_eval)

text \<open>
  C3, as stated: an absent title never matches a present non-empty title. The code
  compares normalizations, and a present title without any alphanumeric code point
  normalizes to the empty string as the absent title does: \<open>"..."\<close> is present and
  non-empty, and it matches \<open>None\<close> on either side.
\<close>

theorem absent_matches_punctuation_only:
  "codepoints ''...'' \<noteq> [] \<and>
   fuzzy_title_match latin1 None (Some (codepoints ''...'')) \<and>
   fuzzy_title_match latin1 (Some (codepoints ''...'')) None"
  by (simp add: latin1_eval)

text \<open>
  C3, amended: an absent title matches a present title exactly when the present title
  has no alphanumeric code point, on either side; so an absent title never matches a
  present title that has at least one alphanumeric code point.
\<close>

theorem absent_matches_iff_no_alnum:
  assumes "unicode_ok u"
  shows "fuzzy_title_match u None (Some t) = (\<not> list_ex (isalnum u) t) \<and>
         fuzzy_title_match u (Some t) None = (\<not> list_ex (isalnum u) t)"
proof -
  from assms have disj: "\<forall>c. isalnum u c \<longrightarrow> \<not> isspace u c"
    and low: "\<forall>s. lower u s = [] \<longleftrightarrow> s = []"
    by (simp_all add: unicode_ok_def)
  have none: "normalize_title_for_comparison u None = []"
    using low by (simp add: normalize_title_for_comparison_def normalize_title_for_matching_def)
  have "normalize_title_for_comparison u (Some t) = [] \<longleftrightarrow> \<not> list_ex (isalnum u) t"
    using low normalize_title_for_matching_Nil_iff [OF disj, of t]
    by (simp add: normalize_title_for_comparison_def)
  with none show ?thesis
    by (auto simp: fuzzy_title_match_def)
qed

theorem absent_matches_iff_no_alnum_witness:
  "unicode_ok latin1 \<and>
   list_ex (isalnum latin1) (codepoints ''Something'') \<and>
   \<not> fuzzy_title_match latin1 None (Some (codepoints ''Something'')) \<and>
   \<not> fuzzy_title_match latin1 (Some (codepoints ''Something'')) None"
  using latin1_ok absent_matches_iff_no_alnum [OF latin1_ok, of "codepoints ''Something''"]
  by (simp add: latin1_def latin1_isalnum_def codepoints_def)

text \<open>
  C4. For every title, \<open>normalize_title_for_comparison\<close> is \<open>normalize_title_for_matching\<close>
  followed by the lower-casing of the whole result.
\<close>

theorem normalize_title_for_comparison_lower:
  "normalize_title_for_comparison u x = lower u (normalize_title_for_matching u x)"
  by (simp add: normalize_title_for_comparison_def)

text \<open>
  C5. \<open>normalize_title_for_matching\<close> is idempotent: normalizing its own result gives
  that result again.
\<close>

theorem normalize_title_for_matching_idempotent:
  assumes "unicode_ok u"
  shows "normalize_title_for_matching u (Some (normalize_title_for_matching u x)) =
         normalize_title_for_matching u x"
  using assms by (intro normalize_title_for_matching_idem) (simp add: unicode_ok_def)

theorem normalize_title_for_matching_idempotent_witness:
  "unicode_ok latin1 \<and>
   normalize_title_for_matching latin1 (Some (codepoints ''Star Wars: Episode IV'')) =
     codepoints ''Star Wars Episode IV'' \<and>
   normalize_title_for_matching latin1
     (Some (normalize_title_for_matching latin1 (Some (codepoints ''Star Wars: Episode IV'')))) =
     normalize_title_for_matching latin1 (Some (codepoints ''Star Wars: Episode IV''))"
  using latin1_ok
    normalize_title_for_matching_idempotent
      [OF latin1_ok, of "Some (codepoints ''Star Wars: Episode IV'')"]
  by (simp add: latin1_eval)

text \<open>
  C6. For every present title:
  \<^item> the alphanumeric code points of the result of \<open>normalize_title_for_matching\<close>
    are the alphanumeric code points of the title, in the same order and unchanged
    (no case is folded);
  \<^item> a code point that is neither alphanumeric nor whitespace is deleted without a
    trace: the title with it and the title without it have the same result;
  \<^item> two alphanumeric fragments with only punctuation between them become one word,
    the two concatenated;
  \<^item> two non-empty alphanumeric fragments with punctuation and at least one
    whitespace code point between them stay apart, by exactly one U+0020;
  \<^item> in general the result is what one gets by splitting the title at its own
    whitespace, deleting what is not alphanumeric inside each fragment, dropping the
    fragments left empty and joining the rest by one U+0020.
\<close>

theorem normalize_title_for_matching_keeps_alnum:
  assumes "unicode_ok u"
  shows "filter (isalnum u) (normalize_title_for_matching u (Some t)) = filter (isalnum u) t \<and>
         (\<not> isalnum u p \<and> \<not> isspace u p \<longrightarrow>
            normalize_title_for_matching u (Some (a @ p # b)) =
            normalize_title_for_matching u (Some (a @ b))) \<and>
         (list_all (isalnum u) w1 \<and> list_all (isalnum u) w2 \<and>
          list_all (\<lambda>c. \<not> isalnum u c \<and> \<not> isspace u c) ps \<longrightarrow>
            normalize_title_for_matching u (Some (w1 @ ps @ w2)) = w1 @ w2) \<and>
         (v1 \<noteq> [] \<and> v2 \<noteq> [] \<and> list_all (isalnum u) v1 \<and> list_all (isalnum u) v2 \<and>
          list_all (\<lambda>c. \<not> isalnum u c) ms \<and> list_ex (isspace u) ms \<longrightarrow>
            normalize_title_for_matching u (Some (v1 @ ms @ v2)) = v1 @ 0x20 # v2) \<and>
         normalize_title_for_matching u (Some t) =
           join [0x20] (filter (\<lambda>w. w \<noteq> [])
             (map (filter (isalnum u)) (split_whitespace (isspace u) t)))"
proof -
  from assms have sp: "isspace u 0x20" and disj: "\<forall>c. isalnum u c \<longrightarrow> \<not> isspace u c"
    by (simp_all add: unicode_ok_def)
  have 1: "filter (isalnum u) (normalize_title_for_matching u (Some t)) = filter (isalnum u) t"
    using sp disj by (rule normalize_title_for_matching_filter_alnum)
  have 2: "\<not> isalnum u p \<and> \<not> isspace u p \<longrightarrow>
            normalize_title_for_matching u (Some (a @ p # b)) =
            normalize_title_for_matching u (Some (a @ b))"
    by (simp add: normalize_title_for_matching_delete)
  have 3: "list_all (isalnum u) w1 \<and> list_all (isalnum u) w2 \<and>
          list_all (\<lambda>c. \<not> isalnum u c \<and> \<not> isspace u c) ps \<longrightarrow>
            normalize_title_for_matching u (Some (w1 @ ps @ w2)) = w1 @ w2"
    using normalize_title_for_matching_concatenated [OF disj, of w1 w2 ps]
    by (simp add: list_all_iff)
  have 4: "v1 \<noteq> [] \<and> v2 \<noteq> [] \<and> list_all (isalnum u) v1 \<and> list_all (isalnum u) v2 \<and>
          list_all (\<lambda>c. \<not> isalnum u c) ms \<and> list_ex (isspace u) ms \<longrightarrow>
            normalize_title_for_matching u (Some (v1 @ ms @ v2)) = v1 @ 0x20 # v2"
    using normalize_title_for_matching_separated [OF disj, of v1 v2 ms]
    by (simp add: list_all_iff list_ex_iff)
  have 5: "normalize_title_for_matching u (Some t) =
           join [0x20] (filter (\<lambda>w. w \<noteq> [])
             (map (filter (isalnum u)) (split_whitespace (isspace u) t)))"
    using disj by (rule normalize_title_for_matching_split_first)
  from 1 2 3 4 5 show ?thesis by blast
qed

theorem normalize_title_for_matching_keeps_alnum_witness:
  "unicode_ok latin1 \<and>
   filter (isalnum latin1)
     (normalize_title_for_matching latin1 (Some (codepoints ''Star Wars: Episode IV''))) =
     filter (isalnum latin1) (codepoints ''Star Wars: Episode IV'') \<and>
   normalize_title_for_matching latin1 (Some (codepoints ''Star Wars: Episode IV'')) =
     codepoints ''Star Wars Episode IV'' \<and>
   \<not> isalnum latin1 0x2D \<and> \<not> isspace latin1 0x2D \<and>
   normalize_title_for_matching latin1 (Some (codepoints ''Spider'' @ 0x2D # codepoints ''Man'')) =
     normalize_title_for_matching latin1 (Some (codepoints ''Spider'' @ codepoints ''Man'')) \<and>
   list_all (isalnum latin1) (codepoints ''Spider'') \<and>
   list_all (isalnum latin1) (codepoints ''Man'') \<and>
   list_all (\<lambda>c. \<not> isalnum latin1 c \<and> \<not> isspace latin1 c) (codepoints ''-'') \<and>
   normalize_title_for_matching latin1
     (Some (codepoints ''Spider'' @ codepoints ''-'' @ codepoints ''Man'')) =
     codepoints ''Spider'' @ codepoints ''Man'' \<and>
   codepoints ''Wars'' \<noteq> [] \<and> codepoints ''Episode'' \<noteq> [] \<and>
   list_all (isalnum latin1) (codepoints ''Wars'') \<and>
   list_all (isalnum latin1) (codepoints ''Episode'') \<and>
   list_all (\<lambda>c. \<not> isalnum latin1 c) (codepoints '':  '') \<and>
   list_ex (isspace latin1) (codepoints '':  '') \<and>
   normalize_title_for_matching latin1
     (Some (codepoints ''Wars'' @ codepoints '':  '' @ codepoints ''Episode'')) =
     codepoints ''Wars'' @ 0x20 # codepoints ''Episode'' \<and>
   normalize_title_for_matching latin1 (Some (codepoints ''Star Wars: Episode IV'')) =
     join [0x20] (filter (\<lambda>w. w \<noteq> [])
       (map (filter (isalnum latin1))
         (split_whitespace (isspace latin1) (codepoints ''Star Wars: Episode IV''))))"
  using latin1_ok
    normalize_title_for_matching_keeps_alnum
      [OF latin1_ok, of "codepoints ''Star Wars: Episode IV''" "0x2D"
         "codepoints ''Spider''" "codepoints ''Man''"
         "codepoints ''Spider''" "codepoints ''Man''" "codepoints ''-''"
         "codepoints ''Wars''" "codepoints ''Episode''" "codepoints '':  ''"]
  by (simp add: latin1_eval)

text \<open>
  C7. The literal scenarios, for every character database that classifies the code
  points below 256 as CPython does: \<open>"The   Matrix"\<close> becomes \<open>"The Matrix"\<close>,
  \<open>"...!!!???"\<close> becomes the empty string, and \<open>"Thor: Ragnar"\<close>, U+00F6,
  \<open>"k"\<close> keeps its U+00F6 and loses the colon.
\<close>

theorem normalize_title_for_matching_scenarios:
  assumes "latin1_agree u"
  shows "normalize_title_for_matching u (Some (codepoints ''The   Matrix'')) =
           codepoints ''The Matrix'' \<and>
         normalize_title_for_matching u (Some (codepoints ''...!!!???'')) = [] \<and>
         normalize_title_for_matching u (Some (codepoints ''Thor: Ragnar'' @ 0xF6 # codepoints ''k'')) =
           codepoints ''Thor Ragnar'' @ 0xF6 # codepoints ''k''"
proof -
  have 1: "normalize_title_for_matching u (Some (codepoints ''The   Matrix'')) =
           normalize_title_for_matching latin1 (Some (codepoints ''The   Matrix''))"
    using assms by (rule latin1_agree_cong) (simp add: codepoints_def)
  have 2: "normalize_title_for_matching u (Some (codepoints ''...!!!???'')) =
           normalize_title_for_matching latin1 (Some (codepoints ''...!!!???''))"
    using assms by (rule latin1_agree_cong) (simp add: codepoints_def)
  have 3: "normalize_title_for_matching u (Some (codepoints ''Thor: Ragnar'' @ 0xF6 # codepoints ''k'')) =
           normalize_title_for_matching latin1 (Some (codepoints ''Thor: Ragnar'' @ 0xF6 # codepoints ''k''))"
    using assms by (rule latin1_agree_cong) (simp add: codepoints_def)
  show ?thesis
    unfolding 1 2 3 by (simp add: latin1_eval)
qed

theorem normalize_title_for_matching_scenarios_witness:
  "latin1_agree latin1 \<and>
   normalize_title_for_matching latin1 (Some (codepoints ''The   Matrix'')) =
     codepoints ''The Matrix'' \<and>
   normalize_title_for_matching latin1 (Some (codepoints ''...!!!???'')) = [] \<and>
   normalize_title_for_matching latin1 (Some (codepoints ''Thor: Ragnar'' @ 0xF6 # codepoints ''k'')) =
     codepoints ''Thor Ragnar'' @ 0xF6 # codepoints ''k''"
  using latin1_agree_latin1 normalize_title_for_matching_scenarios [OF latin1_agree_latin1]
  by simp

text \<open>
  C8. The three functions are total: the source has no \<open>raise\<close> and calls nothing
  that fails on a string or on \<open>None\<close>, its only loop is the one of \<open>str.split\<close>,
  whose termination is proved with \<open>split_whitespace\<close>, so each function returns a
  value on every input. Both normalizations return the empty string for an absent and
  for an empty title.
\<close>

theorem title_matching_total:
  assumes "unicode_ok u"
  shows "normalize_title_for_matching u None = [] \<and>
         normalize_title_for_matching u (Some []) = [] \<and>
         normalize_title_for_comparison u None = [] \<and>
         normalize_title_for_comparison u (Some []) = [] \<and>
         (\<exists>r. normalize_title_for_matching u x = r) \<and>
         (\<exists>r. normalize_title_for_comparison u x = r) \<and>
         (\<exists>b. fuzzy_title_match u x y = b)"
proof -
  from assms have "lower u [] = []"
    by (simp add: unicode_ok_def)
  then show ?thesis
    by (simp add: normalize_title_for_comparison_def normalize_title_for_matching_def)
qed

theorem title_matching_total_witness:
  "unicode_ok latin1 \<and>
   normalize_title_for_matching latin1 None = [] \<and>
   normalize_title_for_matching latin1 (Some []) = [] \<and>
   normalize_title_for_comparison latin1 None = [] \<and>
   normalize_title_for_comparison latin1 (Some []) = []"
  using latin1_ok title_matching_total [OF latin1_ok]
  by simp

text \<open>
  C9. \<open>fuzzy_title_match\<close> is reflexive and symmetric, absent titles included.
\<close>

theorem fuzzy_title_match_refl_sym:
  "fuzzy_title_match u x x \<and> fuzzy_title_match u x y = fuzzy_title_match u y x"
  by (auto simp: fuzzy_title_match_def)

text \<open>
  C10. Normalizing for matching does not change the normalization for comparison, so
  every title matches its own normalization for matching.
\<close>

theorem normalize_title_for_matching_same_class:
  assumes "unicode_ok u"
  shows "normalize_title_for_comparison u (Some (normalize_title_for_matching u x)) =
           normalize_title_for_comparison u x \<and>
         fuzzy_title_match u x (Some (normalize_title_for_matching u x))"
proof -
  from assms have "isspace u 0x20"
    by (simp add: unicode_ok_def)
  then have "normalize_title_for_matching u (Some (normalize_title_for_matching u x)) =
             normalize_title_for_matching u x"
    by (rule normalize_title_for_matching_idem)
  then show ?thesis
    by (simp add: fuzzy_title_match_def normalize_title_for_comparison_def)
qed

theorem normalize_title_for_matching_same_class_witness:
  "unicode_ok latin1 \<and>
   normalize_title_for_comparison latin1
     (Some (normalize_title_for_matching latin1 (Some (codepoints ''Spider-Man: Far From Home'')))) =
     normalize_title_for_comparison latin1 (Some (codepoints ''Spider-Man: Far From Home'')) \<and>
   normalize_title_for_comparison latin1 (Some (codepoints ''Spider-Man: Far From Home'')) =
     codepoints ''spiderman far from home'' \<and>
   fuzzy_title_match latin1 (Some (codepoints ''Spider-Man: Far From Home''))
     (Some (normalize_title_for_matching latin1 (Some (codepoints ''Spider-Man: Far From Home''))))"
  using latin1_ok
    normalize_title_for_matching_same_class
      [OF latin1_ok, of "Some (codepoints ''Spider-Man: Far From Home'')"]
  by (simp add: latin1_eval)

end
